theory Spec2Isabelle
  imports Complex_Main
begin

section \<open>The colour helpers of \<^verbatim>\<open>colors/color.py\<close>\<close>

text \<open>
  The class \<^verbatim>\<open>Color\<close> converts between hexadecimal strings, RGB triples and HSL
  triples and shifts one HSL channel of a colour.  Its methods do not use the stored
  scheme, so each method is a function of its arguments.

  Conventions of the embedding:
  \<^item> a Python \<^verbatim>\<open>str\<close> is the list of its code points (\<open>pystr\<close>); \<open>asc\<close> turns an
    Isabelle string literal into one;
  \<^item> a Python \<^verbatim>\<open>int\<close> is an \<open>int\<close>;
  \<^item> a Python \<^verbatim>\<open>float\<close> is the \<open>real\<close> it stands for, and every arithmetic operation
    on floats rounds its exact result to the nearest binary64 number (\<open>fl\<close>);
  \<^item> a value that is an \<^verbatim>\<open>int\<close> on one path and a \<^verbatim>\<open>float\<close> on another is a \<open>pynum\<close>;
  \<^item> a raised exception is the \<open>Inl\<close> of a sum.
\<close>

subsection \<open>Python values\<close>

datatype error = ValueError | ZeroDivisionError | OverflowError

datatype pynum = PyInt int | PyFloat real

type_synonym pystr = "nat list"

definition asc :: "string \<Rightarrow> pystr" where
  "asc s = map of_char s"

text \<open>The exact value of a number, as the comparisons \<^verbatim>\<open>==\<close>, \<^verbatim>\<open><\<close>, \<^verbatim>\<open><=\<close> see it.\<close>

fun num_val :: "pynum \<Rightarrow> real" where
  "num_val (PyInt i) = of_int i"
| "num_val (PyFloat x) = x"

text \<open>\<^verbatim>\<open>int(x)\<close>: the identity on an int, truncation towards zero on a float.\<close>

fun py_int :: "pynum \<Rightarrow> int" where
  "py_int (PyInt i) = i"
| "py_int (PyFloat x) = (if 0 \<le> x then \<lfloor>x\<rfloor> else \<lceil>x\<rceil>)"

text \<open>\<^verbatim>\<open>round(x)\<close> with one argument: the nearest int, a tie going to the even one.\<close>

definition py_round :: "real \<Rightarrow> int" where
  "py_round x =
     (let f = \<lfloor>x\<rfloor>; d = x - of_int f
      in if d < 1/2 then f else if 1/2 < d then f + 1 else if even f then f else f + 1)"

subsection \<open>Binary floating point\<close>

text \<open>
  A binary64 number is \<open>m * 2 ^ e\<close> with \<open>\<bar>m\<bar> < 2 ^ 53\<close> and \<open>- 1074 \<le> e \<le> 971\<close>.
  \<open>bexp a\<close> is the exponent of the binade of \<open>a \<ge> 0\<close>: the \<open>k\<close> with
  \<open>2 ^ k \<le> a < 2 ^ (k + 1)\<close>, kept between \<open>- 1022\<close> (below it the numbers are
  subnormal and share one spacing) and \<open>1023\<close>.  \<open>fl x\<close> rounds \<open>x\<close> to the nearest
  multiple of the spacing \<open>2 ^ (bexp \<bar>x\<bar> - 52)\<close> of its binade, a tie going to the even
  multiple, as IEEE 754 does by default.  A result of magnitude \<open>2 ^ 1024\<close> or more is
  an overflow.  Where Python raises on one (converting an int, dividing two ints), the
  model raises too.  Where the hardware would give an infinity, the model keeps a real
  beyond the floats, which compares like the infinity; the properties below are on
  computations whose results all stay in range.
\<close>

function exp_up :: "real \<Rightarrow> int \<Rightarrow> int" where
  "exp_up a k = (if 2 \<le> a \<and> k < 1023 then exp_up (a / 2) (k + 1) else k)"
  by pat_completeness auto
termination
  by (relation "measure (\<lambda>(a, k). nat (1023 - k))") auto

function exp_down :: "real \<Rightarrow> int \<Rightarrow> int" where
  "exp_down a k = (if a < 1 \<and> - 1022 < k then exp_down (2 * a) (k - 1) else k)"
  by pat_completeness auto
termination
  by (relation "measure (\<lambda>(a, k). nat (k + 1022))") auto

declare exp_up.simps [simp del] exp_down.simps [simp del]

definition bexp :: "real \<Rightarrow> int" where
  "bexp a = (if 1 \<le> a then exp_up a 0 else exp_down a 0)"

definition fl :: "real \<Rightarrow> real" where
  "fl x = (let q = 2 powi (bexp \<bar>x\<bar> - 52) in q * of_int (py_round (x / q)))"

text \<open>The magnitude from which a result is out of the range of the floats.\<close>

definition float_limit :: real where
  "float_limit = 2 powi 1024"

text \<open>
  \<^verbatim>\<open>float(i)\<close>, as every mixed operation converts an int operand: the nearest float,
  \<^verbatim>\<open>OverflowError\<close> when that is out of range.
\<close>

definition int_to_float :: "int \<Rightarrow> error + real" where
  "int_to_float i =
     (if float_limit \<le> \<bar>fl (of_int i)\<bar> then Inl OverflowError else Inr (fl (of_int i)))"

text \<open>
  \<^verbatim>\<open>a / b\<close> on two ints: the correctly rounded quotient, \<^verbatim>\<open>OverflowError\<close> when it
  is out of range.
\<close>

definition int_truediv :: "int \<Rightarrow> int \<Rightarrow> error + real" where
  "int_truediv a b =
     (if b = 0 then Inl ZeroDivisionError
      else if float_limit \<le> \<bar>fl (of_int a / of_int b)\<bar> then Inl OverflowError
      else Inr (fl (of_int a / of_int b)))"

text \<open>
  \<^verbatim>\<open>x % 1.0\<close> on a float: the C function \<^verbatim>\<open>fmod\<close> gives the exact remainder with
  the sign of \<open>x\<close>; a negative remainder is then moved up by adding \<open>1.0\<close>, which
  rounds.
\<close>

definition py_mod1 :: "real \<Rightarrow> real" where
  "py_mod1 x =
     (let m = x - of_int (if 0 \<le> x then \<lfloor>x\<rfloor> else \<lceil>x\<rceil>)
      in if m < 0 then fl (m + 1) else m)"

subsection \<open>Arithmetic on numbers\<close>

text \<open>Running a computation that may raise, then the next one on its value.\<close>

definition bnd :: "error + 'a \<Rightarrow> ('a \<Rightarrow> error + 'b) \<Rightarrow> error + 'b" where
  "bnd m f = (case m of Inl e \<Rightarrow> Inl e | Inr x \<Rightarrow> f x)"

text \<open>
  The float operand that a number gives to a float operation: a float is itself, an int
  is converted and may be too large.
\<close>

fun as_float :: "pynum \<Rightarrow> error + real" where
  "as_float (PyInt i) = int_to_float i"
| "as_float (PyFloat x) = Inr x"

text \<open>
  \<^verbatim>\<open>x + y\<close>, \<^verbatim>\<open>x - y\<close>, \<^verbatim>\<open>x * y\<close>: exact on two ints; with a float operand, the
  other operand is converted and the exact result is rounded.
\<close>

definition float_op :: "(real \<Rightarrow> real \<Rightarrow> real) \<Rightarrow> pynum \<Rightarrow> pynum \<Rightarrow> error + pynum" where
  "float_op f x y =
     bnd (as_float x) (\<lambda>a. bnd (as_float y) (\<lambda>b. Inr (PyFloat (fl (f a b)))))"

fun py_add :: "pynum \<Rightarrow> pynum \<Rightarrow> error + pynum" where
  "py_add (PyInt a) (PyInt b) = Inr (PyInt (a + b))"
| "py_add (PyFloat a) y = float_op (\<lambda>a b. a + b) (PyFloat a) y"
| "py_add x (PyFloat b) = float_op (\<lambda>a b. a + b) x (PyFloat b)"

fun py_sub :: "pynum \<Rightarrow> pynum \<Rightarrow> error + pynum" where
  "py_sub (PyInt a) (PyInt b) = Inr (PyInt (a - b))"
| "py_sub (PyFloat a) y = float_op (\<lambda>a b. a - b) (PyFloat a) y"
| "py_sub x (PyFloat b) = float_op (\<lambda>a b. a - b) x (PyFloat b)"

fun py_mul :: "pynum \<Rightarrow> pynum \<Rightarrow> error + pynum" where
  "py_mul (PyInt a) (PyInt b) = Inr (PyInt (a * b))"
| "py_mul (PyFloat a) y = float_op (\<lambda>a b. a * b) (PyFloat a) y"
| "py_mul x (PyFloat b) = float_op (\<lambda>a b. a * b) x (PyFloat b)"

text \<open>\<^verbatim>\<open>x % 1.0\<close> on a number: an int is converted first.\<close>

definition num_mod1 :: "pynum \<Rightarrow> error + real" where
  "num_mod1 x = bnd (as_float x) (\<lambda>a. Inr (py_mod1 a))"

text \<open>\<^verbatim>\<open>round(x)\<close> on a number: an int is its own rounding.\<close>

fun round_num :: "pynum \<Rightarrow> int" where
  "round_num (PyInt i) = i"
| "round_num (PyFloat x) = py_round x"

subsection \<open>Strings\<close>

text \<open>\<^verbatim>\<open>s.strip('#')\<close> removes every \<^verbatim>\<open>#\<close> (code point 35) at both ends.\<close>

definition strip_hash :: "pystr \<Rightarrow> pystr" where
  "strip_hash s = rev (dropWhile (\<lambda>c. c = 35) (rev (dropWhile (\<lambda>c. c = 35) s)))"

text \<open>\<^verbatim>\<open>s[i:i + 2]\<close>: a slice never raises, it is shorter at the end of the string.\<close>

definition slice2 :: "pystr \<Rightarrow> nat \<Rightarrow> pystr" where
  "slice2 s i = take 2 (drop i s)"

text \<open>
  \<^verbatim>\<open>int(s, 16)\<close>, as CPython reads it.  A string with a character beyond ASCII is
  first rewritten: a character below 127 is kept, a Unicode white space becomes a blank,
  a Unicode decimal digit becomes the ASCII digit of its value, and at any other
  character the string ends with a question mark.  What the interpreter's Unicode
  database says of a character is the parameter \<open>ucd\<close>.
\<close>

datatype uclass = USpace | UDecimal nat | UOther

fun to_ascii :: "(nat \<Rightarrow> uclass) \<Rightarrow> pystr \<Rightarrow> pystr" where
  "to_ascii ucd [] = []"
| "to_ascii ucd (c # cs) =
     (if c < 127 then c # to_ascii ucd cs
      else (case ucd c of
              USpace \<Rightarrow> 32 # to_ascii ucd cs
            | UDecimal d \<Rightarrow> (48 + d) # to_ascii ucd cs
            | UOther \<Rightarrow> [63]))"

text \<open>
  Then, on the ASCII string: white space (blank, \<^verbatim>\<open>\t \n \v \f \r\<close>) at both ends is
  skipped, then an optional sign, an optional prefix \<^verbatim>\<open>0x\<close> or \<^verbatim>\<open>0X\<close> (one underscore
  may follow it), then at least one digit; single underscores may stand between digits.
  Anything else raises \<^verbatim>\<open>ValueError\<close>.
\<close>

definition py_isspace :: "nat \<Rightarrow> bool" where
  "py_isspace c = (c = 32 \<or> (9 \<le> c \<and> c \<le> 13))"

definition hex_digit :: "nat \<Rightarrow> nat option" where
  "hex_digit c =
     (if 48 \<le> c \<and> c \<le> 57 then Some (c - 48)
      else if 97 \<le> c \<and> c \<le> 102 then Some (c - 87)
      else if 65 \<le> c \<and> c \<le> 70 then Some (c - 55)
      else None)"

text \<open>
  The digit loop: \<open>prev\<close> is the character read last, \<open>acc\<close> the value so far.  It stops
  at the first character that is neither a digit nor an underscore (95) and fails on two
  underscores in a row.
\<close>

fun scan16 :: "pystr \<Rightarrow> nat option \<Rightarrow> nat \<Rightarrow> (nat \<times> nat option \<times> pystr) option" where
  "scan16 [] prev acc = Some (acc, prev, [])"
| "scan16 (c # cs) prev acc =
     (if c = 95 then
        (if prev = Some 95 then None else scan16 cs (Some c) acc)
      else (case hex_digit c of
              Some d \<Rightarrow> scan16 cs (Some c) (16 * acc + d)
            | None \<Rightarrow> Some (acc, prev, c # cs)))"

text \<open>The sign: \<^verbatim>\<open>+\<close> is 43, \<^verbatim>\<open>-\<close> is 45.\<close>

definition skip_sign :: "pystr \<Rightarrow> bool \<times> pystr" where
  "skip_sign s =
     (case s of
        [] \<Rightarrow> (False, [])
      | c # cs \<Rightarrow> if c = 43 then (False, cs)
                  else if c = 45 then (True, cs) else (False, s))"

text \<open>The prefix: \<^verbatim>\<open>0\<close> is 48, \<^verbatim>\<open>x\<close> is 120, \<^verbatim>\<open>X\<close> is 88.\<close>

definition skip_prefix16 :: "pystr \<Rightarrow> pystr" where
  "skip_prefix16 s =
     (case s of
        c # x # cs \<Rightarrow>
          if c = 48 \<and> (x = 120 \<or> x = 88)
          then (case cs of [] \<Rightarrow> cs | u # us \<Rightarrow> if u = 95 then us else cs)
          else s
      | _ \<Rightarrow> s)"

definition parse16 :: "pystr \<Rightarrow> error + int" where
  "parse16 s =
     (let (neg, t) = skip_sign (dropWhile py_isspace s);
          body = skip_prefix16 t
      in if body = [] \<or> hd body = 95 then Inl ValueError
         else (case scan16 body None 0 of
                 None \<Rightarrow> Inl ValueError
               | Some (v, prev, rest) \<Rightarrow>
                   if prev = None \<or> prev = Some 95
                      \<or> dropWhile py_isspace rest \<noteq> []
                   then Inl ValueError
                   else Inr (if neg then - int v else int v)))"

text \<open>A string of ASCII characters only is read as it is.\<close>

definition ascii_form :: "(nat \<Rightarrow> uclass) \<Rightarrow> pystr \<Rightarrow> pystr" where
  "ascii_form ucd s = (if list_all (\<lambda>c. c < 128) s then s else to_ascii ucd s)"

definition py_int16 :: "(nat \<Rightarrow> uclass) \<Rightarrow> pystr \<Rightarrow> error + int" where
  "py_int16 ucd s = parse16 (ascii_form ucd s)"

text \<open>
  \<^verbatim>\<open>'{:02x}'.format(n)\<close>: lower-case hexadecimal digits, a minus sign for a negative
  number, zeros after the sign up to a width of two characters.
\<close>

definition hex_char :: "nat \<Rightarrow> nat" where
  "hex_char d = (if d < 10 then 48 + d else 87 + d)"

function hex_str :: "nat \<Rightarrow> pystr" where
  "hex_str n = (if n < 16 then [hex_char n] else hex_str (n div 16) @ [hex_char (n mod 16)])"
  by pat_completeness auto
termination
  by (relation "measure id") auto

definition format_02x :: "int \<Rightarrow> pystr" where
  "format_02x n =
     (if n < 0 then 45 # hex_str (nat (- n))
      else replicate (2 - length (hex_str (nat n))) 48 @ hex_str (nat n))"

subsection \<open>The conversions\<close>

definition ONE_THIRD :: real where "ONE_THIRD = fl (1 / 3)"
definition ONE_SIXTH :: real where "ONE_SIXTH = fl (1 / 6)"
definition TWO_THIRD :: real where "TWO_THIRD = fl (2 / 3)"

definition hex_to_rgb :: "(nat \<Rightarrow> uclass) \<Rightarrow> pystr \<Rightarrow> error + int \<times> int \<times> int" where
  "hex_to_rgb ucd color =
     (let hex_value = strip_hash color
      in bnd (py_int16 ucd (slice2 hex_value 0)) (\<lambda>r.
         bnd (py_int16 ucd (slice2 hex_value 2)) (\<lambda>g.
         bnd (py_int16 ucd (slice2 hex_value 4)) (\<lambda>b. Inr (r, g, b)))))"

definition rgb_to_hex :: "pynum \<times> pynum \<times> pynum \<Rightarrow> pystr" where
  "rgb_to_hex rgb =
     (case rgb of (r, g, b) \<Rightarrow>
        35 # format_02x (py_int r) @ format_02x (py_int g) @ format_02x (py_int b))"

text \<open>
  \<^verbatim>\<open>rgb_to_hsl\<close>.  The three channels are divided by \<^verbatim>\<open>255.0\<close> first, which converts
  each to a float.  A division by a float that is zero raises
  \<^verbatim>\<open>ZeroDivisionError\<close>; the divisions are taken in the order of the source.
\<close>

definition rgb_to_hsl :: "int \<times> int \<times> int \<Rightarrow> error + real \<times> real \<times> real" where
  "rgb_to_hsl rgb =
     (case rgb of (r0, g0, b0) \<Rightarrow>
      bnd (int_to_float r0) (\<lambda>rf.
      bnd (int_to_float g0) (\<lambda>gf.
      bnd (int_to_float b0) (\<lambda>bf.
        let r = fl (rf / 255); g = fl (gf / 255); b = fl (bf / 255);
            max_color = max (max r g) b;
            min_color = min (min r g) b;
            sum_color = fl (max_color + min_color);
            range_color = fl (max_color - min_color);
            l = fl (sum_color / 2)
        in if min_color = max_color then Inr (0, 0, l)
           else if (if l \<le> 1/2 then sum_color else fl (2 - sum_color)) = 0
                then Inl ZeroDivisionError
           else if range_color = 0 then Inl ZeroDivisionError
           else
             let s = (if l \<le> 1/2 then fl (range_color / sum_color)
                      else fl (range_color / fl (2 - sum_color)));
                 rc = fl (fl (max_color - r) / range_color);
                 gc = fl (fl (max_color - g) / range_color);
                 bc = fl (fl (max_color - b) / range_color);
                 h = (if r = max_color then fl (bc - gc)
                      else if g = max_color then fl (fl (2 + rc) - bc)
                      else fl (fl (4 + gc) - rc))
             in Inr (py_mod1 (fl (h / 6)), s, l)))))"

text \<open>
  \<^verbatim>\<open>_v\<close>.  The wrapped hue is a float; \<open>m1\<close> and \<open>m2\<close> are numbers, and the second and
  the last branch return them as they are.
\<close>

definition v_component :: "pynum \<Rightarrow> pynum \<Rightarrow> pynum \<Rightarrow> error + pynum" where
  "v_component m1 m2 hue0 =
     bnd (num_mod1 hue0) (\<lambda>hue.
       if hue < ONE_SIXTH then
         bnd (py_sub m2 m1) (\<lambda>d.
         bnd (py_mul d (PyFloat hue)) (\<lambda>p.
         bnd (py_mul p (PyFloat 6)) (\<lambda>q. py_add m1 q)))
       else if hue < 1/2 then Inr m2
       else if hue < TWO_THIRD then
         bnd (py_sub m2 m1) (\<lambda>d.
         bnd (py_sub (PyFloat TWO_THIRD) (PyFloat hue)) (\<lambda>t.
         bnd (py_mul d t) (\<lambda>p.
         bnd (py_mul p (PyFloat 6)) (\<lambda>q. py_add m1 q))))
       else Inr m1)"

text \<open>\<^verbatim>\<open>round(v * 255)\<close>, the scaling of one channel.\<close>

definition round255 :: "pynum \<Rightarrow> error + pynum" where
  "round255 v = bnd (py_mul v (PyInt 255)) (\<lambda>x. Inr (PyInt (round_num x)))"

text \<open>
  \<^verbatim>\<open>hsl_to_rgb\<close>.  With saturation zero the lightness is returned three times as it
  is; otherwise the three channels are computed from left to right.
\<close>

definition hsl_to_rgb :: "pynum \<times> pynum \<times> pynum \<Rightarrow> error + pynum \<times> pynum \<times> pynum" where
  "hsl_to_rgb hsl =
     (case hsl of (h, s, l) \<Rightarrow>
        if num_val s = 0 then Inr (l, l, l)
        else
          bnd (if num_val l \<le> 1/2
               then bnd (py_add (PyFloat 1) s) (\<lambda>t. py_mul l t)
               else bnd (py_add l s) (\<lambda>a. bnd (py_mul l s) (\<lambda>b. py_sub a b))) (\<lambda>m2.
          bnd (py_mul (PyFloat 2) l) (\<lambda>t.
          bnd (py_sub t m2) (\<lambda>m1.
          bnd (py_add h (PyFloat ONE_THIRD)) (\<lambda>hr.
          bnd (v_component m1 m2 hr) (\<lambda>vr.
          bnd (round255 vr) (\<lambda>r.
          bnd (v_component m1 m2 h) (\<lambda>vg.
          bnd (round255 vg) (\<lambda>g.
          bnd (py_sub h (PyFloat ONE_THIRD)) (\<lambda>hb.
          bnd (v_component m1 m2 hb) (\<lambda>vb.
          bnd (round255 vb) (\<lambda>b. Inr (r, g, b)))))))))))))"

definition hex_to_hsl :: "(nat \<Rightarrow> uclass) \<Rightarrow> pystr \<Rightarrow> error + real \<times> real \<times> real" where
  "hex_to_hsl ucd color = bnd (hex_to_rgb ucd color) rgb_to_hsl"

definition hsl_to_hex :: "pynum \<times> pynum \<times> pynum \<Rightarrow> error + pystr" where
  "hsl_to_hex hsl = bnd (hsl_to_rgb hsl) (\<lambda>rgb. Inr (rgb_to_hex rgb))"

subsection \<open>The channel shifts\<close>

definition check_range :: "pynum \<Rightarrow> pynum" where
  "check_range channel =
     (if num_val channel < 0 then PyInt 0
      else if 1 < num_val channel then PyInt 1 else channel)"

text \<open>The literal \<^verbatim>\<open>3.6\<close> is the float nearest to 36/10.\<close>

definition F3_6 :: real where "F3_6 = fl (36 / 10)"

text \<open>
  The hue fraction that \<^verbatim>\<open>hue\<close> computes from the hue \<open>h\<close> of the colour:
  \<^verbatim>\<open>_check_range((h * 3.6 - abs(shift) / 100) / 3.6)\<close> for a negative shift,
  \<^verbatim>\<open>_check_range((h * 3.6 + shift / 100) / 3.6)\<close> otherwise.  The quotient of the two
  ints is rounded once.
\<close>

definition hue_shift :: "real \<Rightarrow> int \<Rightarrow> error + pynum" where
  "hue_shift h shift =
     bnd (int_truediv \<bar>shift\<bar> 100) (\<lambda>d.
       Inr (check_range (PyFloat
         (if shift < 0 then fl (fl (fl (h * F3_6) - d) / F3_6)
          else fl (fl (fl (h * F3_6) + d) / F3_6)))))"

definition hue :: "(nat \<Rightarrow> uclass) \<Rightarrow> pystr \<Rightarrow> int \<Rightarrow> error + pystr" where
  "hue ucd color shift =
     bnd (hex_to_hsl ucd color) (\<lambda>(h, s, l).
     bnd (hue_shift h shift) (\<lambda>h'. hsl_to_hex (h', PyFloat s, PyFloat l)))"

text \<open>
  The channel that \<^verbatim>\<open>saturation\<close> and \<^verbatim>\<open>lightness\<close> compute from the channel \<open>x\<close> of
  the colour: \<^verbatim>\<open>_check_range(x - abs(shift) / 100)\<close> for a negative shift,
  \<^verbatim>\<open>_check_range(x + shift / 100)\<close> otherwise.
\<close>

definition percent_shift :: "real \<Rightarrow> int \<Rightarrow> error + pynum" where
  "percent_shift x shift =
     bnd (int_truediv \<bar>shift\<bar> 100) (\<lambda>d.
       Inr (check_range (PyFloat (if shift < 0 then fl (x - d) else fl (x + d)))))"

definition saturation :: "(nat \<Rightarrow> uclass) \<Rightarrow> pystr \<Rightarrow> int \<Rightarrow> error + pystr" where
  "saturation ucd color shift =
     bnd (hex_to_hsl ucd color) (\<lambda>(h, s, l).
     bnd (percent_shift s shift) (\<lambda>s'. hsl_to_hex (PyFloat h, s', PyFloat l)))"

definition lightness :: "(nat \<Rightarrow> uclass) \<Rightarrow> pystr \<Rightarrow> int \<Rightarrow> error + pystr" where
  "lightness ucd color shift =
     bnd (hex_to_hsl ucd color) (\<lambda>(h, s, l).
     bnd (percent_shift l shift) (\<lambda>l'. hsl_to_hex (PyFloat h, PyFloat s, l')))"

subsection \<open>Notions of the specification\<close>

text \<open>
  A valid colour string is six hexadecimal digits after one optional leading \<^verbatim>\<open>#\<close>;
  its normal form is lower case with the \<^verbatim>\<open>#\<close> in front.
\<close>

definition is_hex6 :: "pystr \<Rightarrow> bool" where
  "is_hex6 s = (length s = 6 \<and> list_all (\<lambda>c. hex_digit c \<noteq> None) s)"

definition strip_prefix :: "pystr \<Rightarrow> pystr" where
  "strip_prefix x = (case x of [] \<Rightarrow> [] | c # s \<Rightarrow> if c = 35 then s else x)"

definition valid_hex :: "pystr \<Rightarrow> bool" where
  "valid_hex x = is_hex6 (strip_prefix x)"

definition lower_char :: "nat \<Rightarrow> nat" where
  "lower_char c = (if 65 \<le> c \<and> c \<le> 90 then c + 32 else c)"

definition normalize_hex :: "pystr \<Rightarrow> pystr" where
  "normalize_hex x = 35 # map lower_char (strip_prefix x)"

text \<open>
  The ASCII strings of at most two characters that \<^verbatim>\<open>int(s, 16)\<close> accepts: one or two
  digits, a digit after a sign or a white space, a digit before a white space.
\<close>

definition literal2 :: "pystr \<Rightarrow> bool" where
  "literal2 s =
     (case s of
        [a] \<Rightarrow> hex_digit a \<noteq> None
      | [a, b] \<Rightarrow>
          (hex_digit a \<noteq> None \<and> (hex_digit b \<noteq> None \<or> py_isspace b))
          \<or> ((a = 43 \<or> a = 45 \<or> py_isspace a) \<and> hex_digit b \<noteq> None)
      | _ \<Rightarrow> False)"

text \<open>
  A well-formed result: \<^verbatim>\<open>#\<close> and six characters, each a digit or a letter from
  \<^verbatim>\<open>a\<close> to \<^verbatim>\<open>f\<close>.
\<close>

definition hex_output :: "pystr \<Rightarrow> bool" where
  "hex_output out =
     (case out of
        [] \<Rightarrow> False
      | c # t \<Rightarrow> c = 35 \<and> length t = 6
                 \<and> list_all (\<lambda>d. (48 \<le> d \<and> d \<le> 57) \<or> (97 \<le> d \<and> d \<le> 102)) t)"

text \<open>
  The Unicode database on the code points below 256: beyond ASCII, the white space is
  \<^verbatim>\<open>U+0085\<close> and \<^verbatim>\<open>U+00A0\<close>, and there is no decimal digit.
\<close>

definition latin1_ucd :: "nat \<Rightarrow> uclass" where
  "latin1_ucd c = (if c = 133 \<or> c = 160 then USpace else UOther)"

section \<open>Properties\<close>

subsection \<open>Sequencing\<close>

lemma bnd_Inl [simp]: "bnd (Inl e) f = Inl e"
  by (simp add: bnd_def)

lemma bnd_Inr [simp]: "bnd (Inr x) f = f x"
  by (simp add: bnd_def)

lemma bnd_eq_Inr: "(bnd m f = Inr y) = (\<exists>x. m = Inr x \<and> f x = Inr y)"
  by (cases m) simp_all

lemma bnd_eq_Inl: "(bnd m f = Inl e) = (m = Inl e \<or> (\<exists>x. m = Inr x \<and> f x = Inl e))"
  by (cases m) simp_all

subsection \<open>Reading a hexadecimal string\<close>

lemma dropWhile_hashes:
  "dropWhile (\<lambda>c. c = (35::nat)) (replicate n 35 @ s) = dropWhile (\<lambda>c. c = 35) s"
  by (induction n) simp_all

lemma strip_hash_pad:
  "strip_hash (replicate m 35 @ s @ replicate n 35) = strip_hash s"
proof -
  let ?P = "\<lambda>c. c = (35::nat)"
  have front: "dropWhile ?P (replicate m 35 @ s @ replicate n 35)
             = dropWhile ?P (s @ replicate n 35)"
    by (rule dropWhile_hashes)
  have rear: "dropWhile ?P (rev (dropWhile ?P (s @ replicate n 35)))
            = dropWhile ?P (rev (dropWhile ?P s))"
  proof (cases "\<forall>c \<in> set s. ?P c")
    case True
    then have a: "dropWhile ?P s = []" by simp
    from True have b: "dropWhile ?P (s @ replicate n 35) = []" by auto
    show ?thesis unfolding a b by simp
  next
    case False
    then have "dropWhile ?P (s @ replicate n 35) = dropWhile ?P s @ replicate n 35"
      by auto
    then show ?thesis by (simp add: dropWhile_hashes)
  qed
  show ?thesis unfolding strip_hash_def front rear ..
qed

lemmas hex_to_rgb_eval =
  hex_to_rgb_def strip_hash_def slice2_def py_int16_def ascii_form_def parse16_def
  skip_sign_def skip_prefix16_def py_isspace_def hex_digit_def asc_def

text \<open>
  C10: \<^verbatim>\<open>hex_to_rgb\<close> removes any number of \<^verbatim>\<open>#\<close> from both the start and the end
  of its input, not only one leading \<^verbatim>\<open>#\<close>: padding any string with \<open>m\<close> of them in
  front and \<open>n\<close> behind does not change the result, and \<^verbatim>\<open>b4befe#\<close>, \<^verbatim>\<open>##b4befe\<close>
  and \<^verbatim>\<open>#b4befe#\<close> all parse to the triple of \<^verbatim>\<open>#b4befe\<close>, which is (180, 190, 254).
\<close>

theorem hex_to_rgb_strips_both_ends:
  "hex_to_rgb ucd (replicate m 35 @ s @ replicate n 35) = hex_to_rgb ucd s
   \<and> asc ''#'' = [35]
   \<and> hex_to_rgb ucd (asc ''#b4befe'') = Inr (180, 190, 254)
   \<and> hex_to_rgb ucd (asc ''b4befe#'') = hex_to_rgb ucd (asc ''#b4befe'')
   \<and> hex_to_rgb ucd (asc ''##b4befe'') = hex_to_rgb ucd (asc ''#b4befe'')
   \<and> hex_to_rgb ucd (asc ''#b4befe#'') = hex_to_rgb ucd (asc ''#b4befe'')"
proof -
  have general:
    "hex_to_rgb ucd (replicate m 35 @ s @ replicate n 35) = hex_to_rgb ucd s"
    unfolding hex_to_rgb_def strip_hash_pad ..
  have h: "asc ''#'' = [35]" by (simp add: asc_def)
  have e0: "hex_to_rgb ucd (asc ''#b4befe'') = Inr (180, 190, 254)"
    by (simp add: hex_to_rgb_eval)
  have e1: "hex_to_rgb ucd (asc ''b4befe#'') = Inr (180, 190, 254)"
    by (simp add: hex_to_rgb_eval)
  have e2: "hex_to_rgb ucd (asc ''##b4befe'') = Inr (180, 190, 254)"
    by (simp add: hex_to_rgb_eval)
  have e3: "hex_to_rgb ucd (asc ''#b4befe#'') = Inr (180, 190, 254)"
    by (simp add: hex_to_rgb_eval)
  show ?thesis
    using general h e0 e1 e2 e3 by simp
qed

subsection \<open>The integer literals of the slices\<close>

lemma hex_digit_SomeD:
  "hex_digit c = Some d \<Longrightarrow> d < 16 \<and> \<not> py_isspace c \<and> c \<noteq> 43 \<and> c \<noteq> 45
     \<and> c \<noteq> 95 \<and> c \<noteq> 120 \<and> c \<noteq> 88 \<and> c \<noteq> 35 \<and> c < 128"
  by (auto simp: hex_digit_def py_isspace_def split: if_splits)

lemma hex_digit_others:
  "hex_digit 43 = None" "hex_digit 45 = None" "hex_digit 95 = None"
  "hex_digit 120 = None" "hex_digit 88 = None" "hex_digit 48 = Some 0"
  by (simp_all add: hex_digit_def)

lemma py_isspaceD:
  "py_isspace c \<Longrightarrow> c \<noteq> 95 \<and> c \<noteq> 120 \<and> c \<noteq> 88 \<and> c \<noteq> 43 \<and> c \<noteq> 45 \<and> c \<noteq> 35
     \<and> hex_digit c = None"
  by (auto simp: py_isspace_def hex_digit_def)

lemma py_isspace_signs:
  "\<not> py_isspace 43" "\<not> py_isspace 45" "\<not> py_isspace 95" "\<not> py_isspace 48"
  by (simp_all add: py_isspace_def)

lemmas parse16_unfold = parse16_def skip_sign_def skip_prefix16_def literal2_def

lemma parse16_one: "(\<exists>v. parse16 [a] = Inr v) = literal2 [a]"
proof (cases "hex_digit a")
  case None
  then show ?thesis
    by (simp add: parse16_unfold)
next
  case (Some d)
  with hex_digit_SomeD [OF Some] show ?thesis
    by (simp add: parse16_unfold)
qed

lemma parse16_two: "(\<exists>v. parse16 [a, b] = Inr v) = literal2 [a, b]"
proof (cases "hex_digit a")
  case None
  note a = this
  show ?thesis
  proof (cases "hex_digit b")
    case None
    with a show ?thesis
      by (simp add: parse16_unfold)
  next
    case (Some d)
    with a hex_digit_SomeD [OF Some] show ?thesis
      by (simp add: parse16_unfold)
  qed
next
  case (Some da)
  note a = this hex_digit_SomeD [OF this]
  show ?thesis
  proof (cases "hex_digit b")
    case None
    with a show ?thesis
      using py_isspaceD [of b]
      by (cases "py_isspace b") (simp_all add: parse16_unfold hex_digit_others)
  next
    case (Some d)
    with a hex_digit_SomeD [OF Some] show ?thesis
      by (simp add: parse16_unfold)
  qed
qed

lemma parse16_short: "length s \<le> 2 \<Longrightarrow> (\<exists>v. parse16 s = Inr v) = literal2 s"
proof (cases s)
  case Nil
  then show ?thesis by (simp add: parse16_unfold)
next
  case (Cons a t)
  assume len: "length s \<le> 2"
  show ?thesis
  proof (cases t)
    case Nil
    with Cons show ?thesis by (simp only: parse16_one)
  next
    case (Cons b u)
    with len \<open>s = a # t\<close> have "s = [a, b]" by simp
    then show ?thesis by (simp only: parse16_two)
  qed
qed

lemma parse16_error: "parse16 s = Inl e \<Longrightarrow> e = ValueError"
  by (cases e) (auto simp: parse16_def Let_def split: prod.splits if_splits option.splits)

lemma parse16_pair:
  assumes "hex_digit c1 = Some d1" "hex_digit c2 = Some d2"
  shows "parse16 [c1, c2] = Inr (int (16 * d1 + d2))"
  using hex_digit_SomeD[OF assms(1)] hex_digit_SomeD[OF assms(2)] assms
  by (simp add: parse16_def skip_sign_def skip_prefix16_def)

lemma py_int16_pair:
  assumes "hex_digit c1 = Some d1" "hex_digit c2 = Some d2"
  shows "py_int16 ucd [c1, c2] = Inr (int (16 * d1 + d2))"
  using hex_digit_SomeD[OF assms(1)] hex_digit_SomeD[OF assms(2)] parse16_pair [OF assms]
  by (simp add: py_int16_def ascii_form_def)

lemma length_to_ascii: "length (to_ascii ucd s) \<le> length s"
  by (induction s) (auto split: uclass.splits)

lemma length_ascii_form: "length (ascii_form ucd s) \<le> length s"
  by (simp add: ascii_form_def length_to_ascii)

subsection \<open>Round trip between strings and triples\<close>

lemma is_hex6_shape:
  assumes "is_hex6 s"
  shows "\<exists>a b c d e f. s = [a, b, c, d, e, f]"
proof -
  from assms have len: "length s = 6" by (simp add: is_hex6_def)
  then obtain a s1 where 1: "s = a # s1" by (cases s) auto
  with len obtain b s2 where 2: "s1 = b # s2" by (cases s1) auto
  with 1 len obtain c s3 where 3: "s2 = c # s3" by (cases s2) auto
  with 1 2 len obtain d s4 where 4: "s3 = d # s4" by (cases s3) auto
  with 1 2 3 len obtain e s5 where 5: "s4 = e # s5" by (cases s4) auto
  with 1 2 3 4 len obtain f s6 where 6: "s5 = f # s6" by (cases s5) auto
  with 1 2 3 4 5 len have "s6 = []" by simp
  with 1 2 3 4 5 6 show ?thesis by simp
qed

lemma strip_hash_hex6:
  assumes "is_hex6 s"
  shows "strip_hash s = s"
proof -
  from is_hex6_shape [OF assms] obtain a b c d e f where s: "s = [a, b, c, d, e, f]" by blast
  with assms have "hex_digit a \<noteq> None" "hex_digit f \<noteq> None" by (simp_all add: is_hex6_def)
  then have "a \<noteq> 35" "f \<noteq> 35" using hex_digit_SomeD by auto
  then show ?thesis by (simp add: s strip_hash_def)
qed

lemma strip_hash_valid:
  assumes "valid_hex x"
  shows "strip_hash x = strip_prefix x"
proof (cases "x \<noteq> [] \<and> hd x = 35")
  case True
  then have x: "x = replicate 1 (35) @ strip_prefix x @ replicate 0 (35)"
    by (cases x) (simp_all add: strip_prefix_def)
  have "strip_hash x = strip_hash (strip_prefix x)"
    by (subst x) (rule strip_hash_pad)
  with assms show ?thesis by (simp add: valid_hex_def strip_hash_hex6)
next
  case False
  then have "strip_prefix x = x" by (cases x) (simp_all add: strip_prefix_def)
  with assms show ?thesis by (simp add: valid_hex_def strip_hash_hex6)
qed

lemma hex_to_rgb_valid:
  assumes "valid_hex x"
  shows "\<exists>a b c d e f da db dc dd de df.
           strip_prefix x = [a, b, c, d, e, f]
           \<and> hex_digit a = Some da \<and> hex_digit b = Some db \<and> hex_digit c = Some dc
           \<and> hex_digit d = Some dd \<and> hex_digit e = Some de \<and> hex_digit f = Some df
           \<and> hex_to_rgb ucd x = Inr (int (16 * da + db), int (16 * dc + dd), int (16 * de + df))"
proof -
  from assms have h6: "is_hex6 (strip_prefix x)" by (simp add: valid_hex_def)
  from is_hex6_shape [OF h6] obtain a b c d e f where s: "strip_prefix x = [a, b, c, d, e, f]"
    by blast
  with h6 obtain da db dc dd de df where
    d: "hex_digit a = Some da" "hex_digit b = Some db" "hex_digit c = Some dc"
       "hex_digit d = Some dd" "hex_digit e = Some de" "hex_digit f = Some df"
    by (auto simp: is_hex6_def)
  have "hex_to_rgb ucd x = Inr (int (16 * da + db), int (16 * dc + dd), int (16 * de + df))"
    unfolding hex_to_rgb_def strip_hash_valid [OF assms] s
    by (simp add: slice2_def py_int16_pair [OF d(1) d(2)] py_int16_pair [OF d(3) d(4)]
          py_int16_pair [OF d(5) d(6)])
  with s d show ?thesis by blast
qed

subsection \<open>When reading raises\<close>

lemma length_slice2: "length (slice2 s i) \<le> 2"
  by (simp add: slice2_def)

lemma py_int16_cases: "py_int16 ucd s = Inl ValueError \<or> (\<exists>v. py_int16 ucd s = Inr v)"
proof (cases "py_int16 ucd s")
  case (Inl e)
  then show ?thesis using parse16_error by (auto simp: py_int16_def)
next
  case (Inr v)
  then show ?thesis by blast
qed

lemma py_int16_slice:
  "(py_int16 ucd (slice2 s i) = Inl ValueError) = (\<not> literal2 (ascii_form ucd (slice2 s i)))"
proof -
  have "length (ascii_form ucd (slice2 s i)) \<le> 2"
    using length_ascii_form [of ucd "slice2 s i"] length_slice2 [of s i] by linarith
  from parse16_short [OF this] py_int16_cases [of ucd "slice2 s i"] show ?thesis
    by (auto simp: py_int16_def)
qed

lemma hex_to_rgb_raises:
  "(hex_to_rgb ucd x = Inl e) =
     (e = ValueError \<and> \<not> (literal2 (ascii_form ucd (slice2 (strip_hash x) 0))
         \<and> literal2 (ascii_form ucd (slice2 (strip_hash x) 2))
         \<and> literal2 (ascii_form ucd (slice2 (strip_hash x) 4))))"
proof -
  let ?s = "strip_hash x"
  consider (r) "py_int16 ucd (slice2 ?s 0) = Inl ValueError"
    | (g) r where "py_int16 ucd (slice2 ?s 0) = Inr r"
        "py_int16 ucd (slice2 ?s 2) = Inl ValueError"
    | (b) r g where "py_int16 ucd (slice2 ?s 0) = Inr r" "py_int16 ucd (slice2 ?s 2) = Inr g"
         "py_int16 ucd (slice2 ?s 4) = Inl ValueError"
    | (ok) r g b where "py_int16 ucd (slice2 ?s 0) = Inr r" "py_int16 ucd (slice2 ?s 2) = Inr g"
         "py_int16 ucd (slice2 ?s 4) = Inr b"
    using py_int16_cases by metis
  then show ?thesis
  proof cases
    case r
    moreover from r have "\<not> literal2 (ascii_form ucd (slice2 ?s 0))"
      using py_int16_slice by blast
    ultimately show ?thesis by (auto simp: hex_to_rgb_def)
  next
    case g
    moreover from g have "\<not> literal2 (ascii_form ucd (slice2 ?s 2))"
      using py_int16_slice by blast
    ultimately show ?thesis by (auto simp: hex_to_rgb_def)
  next
    case b
    moreover from b have "\<not> literal2 (ascii_form ucd (slice2 ?s 4))"
      using py_int16_slice by blast
    ultimately show ?thesis by (auto simp: hex_to_rgb_def)
  next
    case ok
    then have "literal2 (ascii_form ucd (slice2 ?s 0))" "literal2 (ascii_form ucd (slice2 ?s 2))"
      "literal2 (ascii_form ucd (slice2 ?s 4))"
      using py_int16_slice by (metis sum.distinct(1))+
    with ok show ?thesis by (simp add: hex_to_rgb_def)
  qed
qed

lemma literal2_Nil: "\<not> literal2 []"
  by (simp add: literal2_def)

lemma short_slice: "length s < 5 \<Longrightarrow> slice2 s 4 = []"
  by (simp add: slice2_def)

text \<open>
  C3, as the code has it: \<^verbatim>\<open>hex_to_rgb\<close> raises exactly when one of the three slices
  \<^verbatim>\<open>[0:2]\<close>, \<^verbatim>\<open>[2:4]\<close>, \<^verbatim>\<open>[4:6]\<close> of the input stripped of \<^verbatim>\<open>#\<close> at both ends is not
  an integer literal of base 16 (in the ASCII form in which \<^verbatim>\<open>int\<close> reads it), and the
  exception is a \<^verbatim>\<open>ValueError\<close>.  So every valid colour string is read without an
  error, and every input with fewer than five characters after stripping raises.  This
  holds whatever the Unicode database says of the characters beyond ASCII.
\<close>

theorem hex_to_rgb_raises_iff:
  "((hex_to_rgb ucd x = Inl e) =
      (e = ValueError \<and> \<not> (literal2 (ascii_form ucd (slice2 (strip_hash x) 0))
          \<and> literal2 (ascii_form ucd (slice2 (strip_hash x) 2))
          \<and> literal2 (ascii_form ucd (slice2 (strip_hash x) 4)))))
   \<and> (valid_hex x \<longrightarrow> (\<exists>rgb. hex_to_rgb ucd x = Inr rgb))
   \<and> (length (strip_hash x) < 5 \<longrightarrow> hex_to_rgb ucd x = Inl ValueError)"
proof (intro conjI impI)
  show "(hex_to_rgb ucd x = Inl e) =
      (e = ValueError \<and> \<not> (literal2 (ascii_form ucd (slice2 (strip_hash x) 0))
          \<and> literal2 (ascii_form ucd (slice2 (strip_hash x) 2))
          \<and> literal2 (ascii_form ucd (slice2 (strip_hash x) 4))))"
    by (rule hex_to_rgb_raises)
next
  assume "valid_hex x"
  from hex_to_rgb_valid [OF this] show "\<exists>rgb. hex_to_rgb ucd x = Inr rgb" by blast
next
  assume "length (strip_hash x) < 5"
  then have "\<not> literal2 (ascii_form ucd (slice2 (strip_hash x) 4))"
    by (simp add: short_slice literal2_Nil ascii_form_def)
  then show "hex_to_rgb ucd x = Inl ValueError"
    by (simp add: hex_to_rgb_raises)
qed

theorem hex_to_rgb_raises_iff_witness:
  "valid_hex (asc ''#b4befe'') \<and> (\<exists>rgb. hex_to_rgb latin1_ucd (asc ''#b4befe'') = Inr rgb)
   \<and> length (strip_hash (asc ''#b4be'')) < 5
   \<and> hex_to_rgb latin1_ucd (asc ''#b4be'') = Inl ValueError
   \<and> \<not> literal2 (ascii_form latin1_ucd (slice2 (strip_hash (asc ''#b4xyfe'')) 2))
   \<and> hex_to_rgb latin1_ucd (asc ''#b4xyfe'') = Inl ValueError"
proof -
  have v: "valid_hex (asc ''#b4befe'')"
    by (simp add: valid_hex_def strip_prefix_def is_hex6_def hex_digit_def asc_def)
  have l: "length (strip_hash (asc ''#b4be'')) < 5"
    by (simp add: strip_hash_def asc_def)
  have n: "\<not> literal2 (ascii_form latin1_ucd (slice2 (strip_hash (asc ''#b4xyfe'')) 2))"
    by (simp add: strip_hash_def slice2_def literal2_def hex_digit_def py_isspace_def
          ascii_form_def asc_def)
  from v l n hex_to_rgb_raises_iff [of latin1_ucd "asc ''#b4befe''" ValueError]
    hex_to_rgb_raises_iff [of latin1_ucd "asc ''#b4be''" ValueError]
    hex_to_rgb_raises_iff [of latin1_ucd "asc ''#b4xyfe''" ValueError]
  show ?thesis by blast
qed

text \<open>
  The claim C3 as stated fails: not every malformed input raises.  Characters after the
  sixth are never read, a last slice of one digit is a literal, and a sign or a white
  space before a digit is part of a literal.
\<close>

theorem hex_to_rgb_too_long_counterexample:
  "\<not> valid_hex (asc ''b4befe00'')
   \<and> hex_to_rgb latin1_ucd (asc ''b4befe00'') = Inr (180, 190, 254)
   \<and> \<not> valid_hex (asc ''b4bef'') \<and> hex_to_rgb latin1_ucd (asc ''b4bef'') = Inr (180, 190, 15)
   \<and> \<not> valid_hex (asc ''+b-e f'')
   \<and> hex_to_rgb latin1_ucd (asc ''+b-e f'') = Inr (11, - 14, 15)"
  by (simp add: valid_hex_def strip_prefix_def is_hex6_def hex_to_rgb_eval)

subsection \<open>Writing a triple\<close>

lemma hex_char_lower: "hex_digit c = Some d \<Longrightarrow> hex_char d = lower_char c"
  by (auto simp: hex_digit_def hex_char_def lower_char_def split: if_splits)

lemma format_02x_nat:
  "format_02x (int n) = replicate (2 - length (hex_str n)) 48 @ hex_str n"
  by (simp add: format_02x_def)

lemma hex_str_digit: "d < 16 \<Longrightarrow> hex_str d = [hex_char d]"
  by (subst hex_str.simps) simp

lemma hex_str_byte:
  assumes "0 < d1" "d1 < 16" "d2 < 16"
  shows "hex_str (16 * d1 + d2) = [hex_char d1, hex_char d2]"
proof -
  from assms have "hex_str (16 * d1 + d2) = hex_str d1 @ [hex_char d2]"
    by (subst hex_str.simps) simp
  with assms show ?thesis by (simp add: hex_str_digit)
qed

lemma format_02x_byte:
  assumes "d1 < 16" "d2 < 16"
  shows "format_02x (int (16 * d1 + d2)) = [hex_char d1, hex_char d2]"
proof (cases "d1 = 0")
  case True
  with assms show ?thesis
    unfolding format_02x_nat by (simp add: hex_str_digit hex_char_def)
next
  case False
  with assms show ?thesis
    unfolding format_02x_nat by (simp add: hex_str_byte)
qed

text \<open>
  C4: for every valid colour string \<open>x\<close> (six hexadecimal digits of any case, with or
  without a leading \<^verbatim>\<open>#\<close>), \<^verbatim>\<open>hex_to_rgb\<close> succeeds and \<^verbatim>\<open>rgb_to_hex\<close> of its
  triple is \<open>x\<close> normalised: lower case, \<^verbatim>\<open>#\<close> in front, two digits per channel.
\<close>

theorem rgb_to_hex_hex_to_rgb:
  assumes "valid_hex x"
  shows "\<exists>r g b. hex_to_rgb ucd x = Inr (r, g, b)
           \<and> rgb_to_hex (PyInt r, PyInt g, PyInt b) = normalize_hex x"
proof -
  from hex_to_rgb_valid [OF assms, where ucd = ucd] obtain a b c d e f da db dc dd de df where
    s: "strip_prefix x = [a, b, c, d, e, f]" and
    d: "hex_digit a = Some da" "hex_digit b = Some db" "hex_digit c = Some dc"
       "hex_digit d = Some dd" "hex_digit e = Some de" "hex_digit f = Some df" and
    v: "hex_to_rgb ucd x = Inr (int (16 * da + db), int (16 * dc + dd), int (16 * de + df))"
    by blast
  from d have lt: "da < 16" "db < 16" "dc < 16" "dd < 16" "de < 16" "df < 16"
    using hex_digit_SomeD by blast+
  have "rgb_to_hex (PyInt (int (16 * da + db)), PyInt (int (16 * dc + dd)),
                    PyInt (int (16 * de + df))) = normalize_hex x"
    unfolding rgb_to_hex_def normalize_hex_def s
    by (simp only: prod.case py_int.simps format_02x_byte lt list.map append.simps
          hex_char_lower [OF d(1)] hex_char_lower [OF d(2)] hex_char_lower [OF d(3)]
          hex_char_lower [OF d(4)] hex_char_lower [OF d(5)] hex_char_lower [OF d(6)])
  with v show ?thesis by blast
qed

theorem rgb_to_hex_hex_to_rgb_witness:
  "valid_hex (asc ''#B4beFE'') \<and> normalize_hex (asc ''#B4beFE'') = asc ''#b4befe''
   \<and> (\<exists>r g b. hex_to_rgb latin1_ucd (asc ''#B4beFE'') = Inr (r, g, b)
         \<and> rgb_to_hex (PyInt r, PyInt g, PyInt b) = asc ''#b4befe'')"
proof -
  have v: "valid_hex (asc ''#B4beFE'')"
    by (simp add: valid_hex_def strip_prefix_def is_hex6_def hex_digit_def asc_def)
  have n: "normalize_hex (asc ''#B4beFE'') = asc ''#b4befe''"
    by (simp add: normalize_hex_def strip_prefix_def lower_char_def asc_def)
  from rgb_to_hex_hex_to_rgb [OF v, of latin1_ucd] n v show ?thesis by simp
qed

subsection \<open>Rounding to an integer\<close>

lemma py_round_cases: "py_round t = \<lfloor>t\<rfloor> \<or> py_round t = \<lfloor>t\<rfloor> + 1"
  by (simp add: py_round_def Let_def)

lemma py_round_err: "\<bar>of_int (py_round t) - t\<bar> \<le> 1 / 2"
  unfolding py_round_def Let_def by (auto; linarith)

lemma py_round_of_int [simp]: "py_round (of_int n) = n"
  by (simp add: py_round_def)

lemma py_round_0 [simp]: "py_round 0 = 0"
  by (simp add: py_round_def)

lemma py_round_mono:
  assumes "s \<le> t"
  shows "py_round s \<le> py_round t"
proof (cases "\<lfloor>s\<rfloor> < \<lfloor>t\<rfloor>")
  case True
  with py_round_cases [of s] py_round_cases [of t] show ?thesis by linarith
next
  case False
  with assms have eq: "\<lfloor>s\<rfloor> = \<lfloor>t\<rfloor>" using floor_mono [of s t] by linarith
  with assms show ?thesis unfolding py_round_def Let_def by auto
qed

lemma py_round_neg: "py_round (- t) = - py_round t"
proof (cases "t = of_int \<lfloor>t\<rfloor>")
  case True
  then obtain n :: int where "t = of_int n" ..
  then have "- t = of_int (- n)" by simp
  with \<open>t = of_int n\<close> show ?thesis by (simp only: py_round_of_int)
next
  case False
  then have "\<lceil>t\<rceil> = \<lfloor>t\<rfloor> + 1" by (simp add: ceiling_altdef)
  then have fl: "\<lfloor>- t\<rfloor> = - \<lfloor>t\<rfloor> - 1" by (simp add: ceiling_def)
  from False have "0 < t - of_int \<lfloor>t\<rfloor>"
    using of_int_floor_le [of t] by (simp add: less_le)
  then show ?thesis unfolding py_round_def Let_def fl by auto
qed

subsection \<open>The exponent of a binade\<close>

lemma p2_pos [simp]: "0 < (2::real) powi k"
  by simp

lemma p2_mono: "m \<le> n \<Longrightarrow> (2::real) powi m \<le> 2 powi n"
  by (rule power_int_increasing) simp_all

lemma p2_less_D: "(2::real) powi m < 2 powi n \<Longrightarrow> m < n"
  using p2_mono [of n m] by (cases "m < n") auto

lemma p2_Suc: "(2::real) powi (k + 1) = 2 * 2 powi k"
  by (simp add: power_int_add)

lemma p2_pred: "2 * (2::real) powi (k - 1) = 2 powi k"
  using p2_Suc [of "k - 1"] by simp

lemma exp_down_spec:
  "0 \<le> a \<Longrightarrow> - 1022 \<le> k \<Longrightarrow>
     - 1022 \<le> exp_down a k \<and> exp_down a k \<le> k
     \<and> (- 1022 < exp_down a k \<longrightarrow> 1 \<le> a * 2 powi (k - exp_down a k))
     \<and> (a < 2 \<longrightarrow> a * 2 powi (k - exp_down a k) < 2)"
proof (induction a k rule: exp_down.induct)
  case (1 a k)
  show ?case
  proof (cases "a < 1 \<and> - 1022 < k")
    case True
    then have e: "exp_down a k = exp_down (2 * a) (k - 1)"
      by (subst exp_down.simps) simp
    have "2 * (2::real) powi (k - exp_down (2 * a) (k - 1) - 1)
          = 2 powi (k - exp_down (2 * a) (k - 1))"
      by (rule p2_pred)
    then have p: "2 * a * 2 powi (k - 1 - exp_down (2 * a) (k - 1))
             = a * 2 powi (k - exp_down (2 * a) (k - 1))"
      by (simp add: algebra_simps)
    from True "1.prems" have "0 \<le> 2 * a" "- 1022 \<le> k - 1" by simp_all
    from "1.IH" [OF True this] True show ?thesis
      unfolding e p by auto
  next
    case False
    then have e: "exp_down a k = k" by (subst exp_down.simps) auto
    from False "1.prems" show ?thesis unfolding e by auto
  qed
qed

lemma exp_up_spec:
  "1 \<le> a \<Longrightarrow> k \<le> 1023 \<Longrightarrow>
     k \<le> exp_up a k \<and> exp_up a k \<le> 1023
     \<and> 1 \<le> a / 2 powi (exp_up a k - k)
     \<and> (exp_up a k < 1023 \<longrightarrow> a / 2 powi (exp_up a k - k) < 2)"
proof (induction a k rule: exp_up.induct)
  case (1 a k)
  show ?case
  proof (cases "2 \<le> a \<and> k < 1023")
    case True
    then have e: "exp_up a k = exp_up (a / 2) (k + 1)"
      by (subst exp_up.simps) simp
    have "2 * (2::real) powi (exp_up (a / 2) (k + 1) - k - 1)
          = 2 powi (exp_up (a / 2) (k + 1) - k)"
      by (rule p2_pred)
    then have p: "a / 2 / 2 powi (exp_up (a / 2) (k + 1) - (k + 1))
             = a / 2 powi (exp_up (a / 2) (k + 1) - k)"
      by (simp add: algebra_simps)
    from True have "1 \<le> a / 2" "k + 1 \<le> 1023" by simp_all
    from "1.IH" [OF True this] show ?thesis
      unfolding e p by auto
  next
    case False
    then have e: "exp_up a k = k" by (subst exp_up.simps) auto
    from False "1.prems" show ?thesis unfolding e by auto
  qed
qed

lemma bexp_range: "0 \<le> a \<Longrightarrow> - 1022 \<le> bexp a \<and> bexp a \<le> 1023"
  using exp_down_spec [of a 0] exp_up_spec [of a 0] by (auto simp: bexp_def)

lemma bexp_lb: "0 \<le> a \<Longrightarrow> - 1022 < bexp a \<Longrightarrow> 2 powi bexp a \<le> a"
proof (cases "1 \<le> a")
  case True
  assume "0 \<le> a"
  from exp_up_spec [OF True, of 0] have "1 \<le> a / 2 powi (exp_up a 0)" by simp
  then have "2 powi (exp_up a 0) \<le> a" by (simp add: field_simps)
  with True show ?thesis by (simp add: bexp_def)
next
  case False
  assume a: "0 \<le> a" and b: "- 1022 < bexp a"
  from False b have "- 1022 < exp_down a 0" by (simp add: bexp_def)
  with exp_down_spec [OF a, of 0] have "1 \<le> a * 2 powi (- exp_down a 0)" by simp
  then have "2 powi (exp_down a 0) \<le> a" by (simp add: power_int_minus field_simps)
  with False show ?thesis by (simp add: bexp_def)
qed

lemma bexp_ub: "0 \<le> a \<Longrightarrow> bexp a < 1023 \<Longrightarrow> a < 2 powi (bexp a + 1)"
proof (cases "1 \<le> a")
  case True
  assume b: "bexp a < 1023"
  with True have "exp_up a 0 < 1023" by (simp add: bexp_def)
  with exp_up_spec [OF True, of 0] have "a / 2 powi (exp_up a 0) < 2" by simp
  then have "a < 2 powi (exp_up a 0 + 1)" by (simp add: power_int_add field_simps)
  with True show ?thesis by (simp add: bexp_def)
next
  case False
  assume a: "0 \<le> a"
  from False have "a < 2" by simp
  with exp_down_spec [OF a, of 0] have "a * 2 powi (- exp_down a 0) < 2" by simp
  then have "a < 2 powi (exp_down a 0 + 1)"
    by (simp add: power_int_minus power_int_add field_simps)
  with False show ?thesis by (simp add: bexp_def)
qed

lemma bexp_mono:
  assumes "0 \<le> a" "a \<le> b"
  shows "bexp a \<le> bexp b"
proof (rule ccontr)
  assume "\<not> bexp a \<le> bexp b"
  then have lt: "bexp b < bexp a" by simp
  from assms have b0: "0 \<le> b" by simp
  from lt bexp_range [OF b0] bexp_range [OF assms(1)] have "- 1022 < bexp a" "bexp b < 1023"
    by linarith+
  from bexp_lb [OF assms(1) this(1)] bexp_ub [OF b0 this(2)] assms
  have "2 powi bexp a < (2::real) powi (bexp b + 1)" by linarith
  then have "bexp a < bexp b + 1" by (rule p2_less_D)
  with lt show False by simp
qed

subsection \<open>Rounding to a float\<close>

lemma q_hi: "(2::real) powi (e + 1) = 2 powi (e - 52) * 2 ^ 53"
proof -
  have "(2::real) powi (e - 52 + 53) = 2 powi (e - 52) * 2 powi 53"
    by (rule power_int_add) simp
  moreover have "e - 52 + 53 = e + 1" by simp
  ultimately show ?thesis by simp
qed

lemma q_lo: "(2::real) powi e = 2 powi (e - 52) * 2 ^ 52"
proof -
  have "(2::real) powi (e - 52 + 52) = 2 powi (e - 52) * 2 powi 52"
    by (rule power_int_add) simp
  then show ?thesis by simp
qed

lemma py_round_le: "t \<le> of_int n \<Longrightarrow> py_round t \<le> n"
  using py_round_mono [of t "of_int n"] by simp

lemma py_round_ge: "of_int n \<le> t \<Longrightarrow> n \<le> py_round t"
  using py_round_mono [of "of_int n" t] by simp

lemmas fl_eval = fl_def bexp_def exp_down.simps exp_up.simps py_round_def Let_def

lemma fl_neg: "fl (- x) = - fl x"
  by (simp add: fl_def Let_def py_round_neg)

lemma fl_0 [simp]: "fl 0 = 0"
  by (simp add: fl_def Let_def)

lemma fl_err: "\<bar>fl x - x\<bar> \<le> 2 powi (bexp \<bar>x\<bar> - 53)"
proof -
  define q :: real where "q = 2 powi (bexp \<bar>x\<bar> - 52)"
  have qpos: "0 < q" by (simp add: q_def)
  have "fl x - x = q * (of_int (py_round (x / q)) - x / q)"
    using qpos by (simp add: fl_def Let_def q_def algebra_simps)
  then have "\<bar>fl x - x\<bar> = q * \<bar>of_int (py_round (x / q)) - x / q\<bar>"
    using qpos by (simp add: abs_mult)
  also have "\<dots> \<le> q * (1 / 2)"
    using qpos py_round_err [of "x / q"] by (intro mult_left_mono) simp_all
  also have "\<dots> = 2 powi (bexp \<bar>x\<bar> - 53)"
    using p2_pred [of "bexp \<bar>x\<bar> - 52"] by (simp add: q_def)
  finally show ?thesis .
qed

lemma bexp_le:
  assumes "0 \<le> a" "a < 2 powi (k + 1)" "- 1022 \<le> k"
  shows "bexp a \<le> k"
proof (rule ccontr)
  assume "\<not> bexp a \<le> k"
  then have lt: "k < bexp a" by simp
  with assms have "- 1022 < bexp a" by simp
  from bexp_lb [OF assms(1) this] assms have "2 powi bexp a < (2::real) powi (k + 1)" by simp
  then have "bexp a < k + 1" by (rule p2_less_D)
  with lt show False by simp
qed

lemma fl_err_bound:
  assumes "\<bar>x\<bar> < 2 powi (k + 1)" "- 1022 \<le> k"
  shows "\<bar>fl x - x\<bar> \<le> 2 powi (k - 53)"
proof -
  from assms have "bexp \<bar>x\<bar> \<le> k" by (intro bexp_le) simp_all
  then have "(2::real) powi (bexp \<bar>x\<bar> - 53) \<le> 2 powi (k - 53)" by (intro p2_mono) simp
  with fl_err [of x] show ?thesis by linarith
qed

lemma fl_nonneg: "0 \<le> x \<Longrightarrow> 0 \<le> fl x"
proof -
  assume x: "0 \<le> x"
  then have "0 \<le> x / 2 powi (bexp \<bar>x\<bar> - 52)" by simp
  then have "0 \<le> py_round (x / 2 powi (bexp \<bar>x\<bar> - 52))"
    using py_round_ge [of 0] by simp
  then show ?thesis by (simp add: fl_def Let_def)
qed

lemma fl_mono_nonneg:
  assumes "0 \<le> x" "x \<le> y"
  shows "fl x \<le> fl y"
proof -
  from assms have y: "0 \<le> y" by simp
  define ex where "ex = bexp x"
  define ey where "ey = bexp y"
  define qx :: real where "qx = 2 powi (ex - 52)"
  define qy :: real where "qy = 2 powi (ey - 52)"
  have fx: "fl x = qx * of_int (py_round (x / qx))"
    using assms by (simp add: fl_def Let_def qx_def ex_def)
  have fy: "fl y = qy * of_int (py_round (y / qy))"
    using y by (simp add: fl_def Let_def qy_def ey_def)
  have qpos: "0 < qx" "0 < qy" by (simp_all add: qx_def qy_def)
  have le: "ex \<le> ey" unfolding ex_def ey_def using assms by (rule bexp_mono)
  show ?thesis
  proof (cases "ex = ey")
    case True
    then have "qx = qy" by (simp add: qx_def qy_def)
    moreover from assms qpos have "x / qy \<le> y / qy" by (simp add: divide_right_mono)
    then have "py_round (x / qy) \<le> py_round (y / qy)" by (rule py_round_mono)
    ultimately show ?thesis unfolding fx fy using qpos by simp
  next
    case False
    with le have lt: "ex < ey" by simp
    from bexp_range [OF y] have "ey \<le> 1023" by (simp add: ey_def)
    with lt have "bexp x < 1023" by (simp add: ex_def)
    from bexp_ub [OF assms(1) this] have "x < qx * 2 ^ 53"
      unfolding q_hi qx_def ex_def .
    with qpos have "x / qx \<le> of_int (2 ^ 53)" by (simp add: field_simps)
    then have "py_round (x / qx) \<le> 2 ^ 53" by (rule py_round_le)
    then have "(of_int (py_round (x / qx)) :: real) \<le> 2 ^ 53"
      by (metis of_int_le_iff of_int_numeral of_int_power)
    with qpos have "fl x \<le> qx * 2 ^ 53" unfolding fx by simp
    also have "\<dots> = 2 powi (ex + 1)" by (simp add: q_hi qx_def)
    also from lt have "\<dots> \<le> 2 powi ey" by (intro p2_mono) simp
    finally have 1: "fl x \<le> 2 powi ey" .
    from bexp_range [OF assms(1)] lt have "- 1022 < bexp y" by (simp add: ex_def ey_def)
    from bexp_lb [OF y this] have "qy * 2 ^ 52 \<le> y"
      using q_lo [of ey] by (simp add: qy_def ey_def)
    with qpos have "of_int (2 ^ 52) \<le> y / qy" by (simp add: field_simps)
    then have "2 ^ 52 \<le> py_round (y / qy)" by (rule py_round_ge)
    then have "(2 ^ 52 :: real) \<le> of_int (py_round (y / qy))"
      by (metis of_int_le_iff of_int_numeral of_int_power)
    with qpos have "qy * 2 ^ 52 \<le> fl y" unfolding fy by simp
    then have 2: "2 powi ey \<le> fl y" using q_lo [of ey] by (simp add: qy_def)
    from 1 2 show ?thesis by linarith
  qed
qed

lemma fl_mono:
  assumes "x \<le> y"
  shows "fl x \<le> fl y"
proof (cases "0 \<le> x")
  case True
  with assms show ?thesis by (intro fl_mono_nonneg)
next
  case x: False
  show ?thesis
  proof (cases "0 \<le> y")
    case True
    from x have "0 \<le> fl (- x)" by (intro fl_nonneg) simp
    then have "fl x \<le> 0" by (simp add: fl_neg)
    with fl_nonneg [OF True] show ?thesis by linarith
  next
    case False
    with assms have "fl (- y) \<le> fl (- x)" by (intro fl_mono_nonneg) simp_all
    then show ?thesis by (simp add: fl_neg)
  qed
qed

lemma fl_of_scaled_int:
  assumes "x / 2 powi (bexp \<bar>x\<bar> - 52) = of_int n"
  shows "fl x = x"
proof -
  have "fl x = 2 powi (bexp \<bar>x\<bar> - 52) * of_int (py_round (of_int n))"
    unfolding fl_def Let_def assms ..
  also have "\<dots> = 2 powi (bexp \<bar>x\<bar> - 52) * (x / 2 powi (bexp \<bar>x\<bar> - 52))"
    by (simp add: assms)
  finally show ?thesis by simp
qed

lemma p2_int: "0 \<le> j \<Longrightarrow> (2::real) powi j = of_int (2 ^ nat j)"
  by (simp add: power_int_def)

lemma fl_exact:
  assumes x: "x = 2 powi k * of_int m" and m: "\<bar>m\<bar> \<le> 2 ^ 53" and k: "- 1074 \<le> k"
  shows "fl x = x"
proof -
  define e where "e = bexp \<bar>x\<bar>"
  have mr: "\<bar>of_int m :: real\<bar> \<le> 2 ^ 53"
    using m by (metis of_int_abs of_int_le_iff of_int_numeral of_int_power)
  have ax: "\<bar>x\<bar> = 2 powi k * \<bar>of_int m\<bar>" by (simp add: x abs_mult)
  have ek: "e \<le> k + 53"
  proof (cases "- 1022 < e")
    case True
    then have "2 powi e \<le> \<bar>x\<bar>" unfolding e_def by (intro bexp_lb) simp_all
    also have "\<dots> \<le> 2 powi k * 2 ^ 53" unfolding ax using mr by (intro mult_left_mono) simp_all
    also have "\<dots> = 2 powi (k + 53)" by (simp add: power_int_add)
    finally have "(2::real) powi e \<le> 2 powi (k + 53)" .
    moreover have "(2::real) powi (k + 53) < 2 powi (k + 53 + 1)"
      using p2_pos [of "k + 53"] unfolding p2_Suc [of "k + 53"] by linarith
    ultimately have "(2::real) powi e < 2 powi (k + 53 + 1)" by linarith
    then have "e < k + 53 + 1" by (rule p2_less_D)
    then show ?thesis by simp
  next
    case False
    with k show ?thesis by simp
  qed
  show ?thesis
  proof (cases "e \<le> k + 52")
    case True
    then have j: "0 \<le> k - (e - 52)" by simp
    have "x / 2 powi (e - 52) = of_int m * 2 powi (k - (e - 52))"
      by (simp add: x power_int_diff)
    also have "\<dots> = of_int (m * 2 ^ nat (k - (e - 52)))"
      by (simp add: p2_int [OF j])
    finally show ?thesis unfolding e_def by (rule fl_of_scaled_int)
  next
    case False
    with ek have e: "e = k + 53" by simp
    with k have "- 1022 < e" by simp
    then have "2 powi e \<le> \<bar>x\<bar>" unfolding e_def by (intro bexp_lb) simp_all
    then have "2 powi k * 2 ^ 53 \<le> 2 powi k * \<bar>of_int m :: real\<bar>"
      unfolding ax e by (simp add: power_int_add)
    then have "(2 ^ 53 :: real) \<le> \<bar>of_int m\<bar>" by simp
    with mr have am: "\<bar>of_int m :: real\<bar> = 2 ^ 53" by simp
    have "x / 2 powi (e - 52) = of_int m * 2 powi (k - (e - 52))"
      by (simp add: x power_int_diff)
    also have "\<dots> = of_int m / 2" by (simp add: e)
    finally have s: "x / 2 powi (e - 52) = of_int m / 2" .
    from am have "of_int m = (2 ^ 53 :: real) \<or> of_int m = - (2 ^ 53 :: real)" by linarith
    then have "of_int m / 2 = (of_int (2 ^ 52) :: real) \<or> of_int m / 2 = (of_int (- (2 ^ 52)) :: real)"
      by auto
    with s obtain n :: int where "x / 2 powi (e - 52) = of_int n" by metis
    then show ?thesis unfolding e_def by (rule fl_of_scaled_int)
  qed
qed

lemma fl_repr:
  assumes "\<bar>x\<bar> < float_limit"
  shows "\<exists>k m. fl x = 2 powi k * of_int m \<and> \<bar>m\<bar> \<le> 2 ^ 53 \<and> - 1074 \<le> k \<and> k \<le> 971"
proof -
  define e where "e = bexp \<bar>x\<bar>"
  define q :: real where "q = 2 powi (e - 52)"
  have qpos: "0 < q" by (simp add: q_def)
  have rng: "- 1022 \<le> e" "e \<le> 1023" using bexp_range [of "\<bar>x\<bar>"] by (simp_all add: e_def)
  have ub: "\<bar>x\<bar> < q * 2 ^ 53"
  proof (cases "e < 1023")
    case True
    then have "\<bar>x\<bar> < 2 powi (e + 1)" unfolding e_def by (intro bexp_ub) simp_all
    then show ?thesis by (simp add: q_hi q_def)
  next
    case False
    with rng have "e = 1023" by simp
    with assms show ?thesis using q_hi [of 1023] by (simp add: q_def float_limit_def)
  qed
  with qpos have "x / q \<le> of_int (2 ^ 53)" "of_int (- (2 ^ 53)) \<le> x / q"
    by (simp_all add: field_simps abs_less_iff)
  then have "py_round (x / q) \<le> 2 ^ 53" "- (2 ^ 53) \<le> py_round (x / q)"
    by (auto intro: py_round_le py_round_ge)
  then have "\<bar>py_round (x / q)\<bar> \<le> 2 ^ 53" by simp
  moreover have "fl x = 2 powi (e - 52) * of_int (py_round (x / q))"
    by (simp add: fl_def Let_def q_def e_def)
  ultimately show ?thesis using rng by (intro exI [of _ "e - 52"] exI [of _ "py_round (x / q)"]) simp
qed

lemma fl_idem: "\<bar>x\<bar> < float_limit \<Longrightarrow> fl (fl x) = fl x"
  using fl_repr [of x] fl_exact by blast

lemma fl_double: "\<bar>x\<bar> < float_limit \<Longrightarrow> fl (2 * fl x) = 2 * fl x"
proof -
  assume "\<bar>x\<bar> < float_limit"
  from fl_repr [OF this] obtain k m where
    r: "fl x = 2 powi k * of_int m" "\<bar>m\<bar> \<le> 2 ^ 53" "- 1074 \<le> k" by blast
  have "2 * fl x = 2 powi (k + 1) * of_int m" by (simp add: r p2_Suc)
  from this r(2) show ?thesis by (rule fl_exact) (use r(3) in simp)
qed

lemma fl_half: "\<bar>x\<bar> < float_limit \<Longrightarrow> fl (2 * fl x / 2) = fl x"
  by (simp add: fl_idem)

subsection \<open>Numbers in range\<close>

lemma float_limit_big: "(2::real) ^ 53 < float_limit"
proof -
  have "(2::real) powi 53 < 2 powi 1024" by (rule power_int_strict_increasing) simp_all
  then show ?thesis unfolding float_limit_def by simp
qed

lemma fl_of_int: "\<bar>i\<bar> \<le> 2 ^ 53 \<Longrightarrow> fl (of_int i) = of_int i"
  using fl_exact [of "of_int i" 0 i] by simp

lemma int_to_float_small:
  assumes "\<bar>i\<bar> \<le> 2 ^ 53"
  shows "int_to_float i = Inr (of_int i)"
proof -
  from assms have "\<bar>of_int i :: real\<bar> \<le> 2 ^ 53"
    by (metis of_int_abs of_int_le_iff of_int_numeral of_int_power)
  with float_limit_big have "\<bar>of_int i :: real\<bar> < float_limit" by linarith
  with assms show ?thesis by (simp add: int_to_float_def fl_of_int)
qed

lemma int_to_float_range:
  "int_to_float i = Inr x \<Longrightarrow> \<bar>x\<bar> < float_limit \<and> x = fl (of_int i)"
  by (auto simp: int_to_float_def split: if_splits)

subsection \<open>Colours without a hue\<close>

lemma rgb_to_hsl_grey:
  assumes "int_to_float r = Inr x"
  shows "rgb_to_hsl (r, r, r) = Inr (0, 0, fl (x / 255))"
proof -
  from int_to_float_range [OF assms] have "\<bar>x\<bar> < float_limit" by blast
  then have "\<bar>x / 255\<bar> < float_limit" by (simp add: abs_if field_simps split: if_splits)
  then have "fl (2 * fl (x / 255) / 2) = fl (x / 255)" "fl (2 * fl (x / 255)) = 2 * fl (x / 255)"
    by (rule fl_half, rule fl_double)
  then show ?thesis using assms
    by (simp add: rgb_to_hsl_def Let_def)
qed

text \<open>
  C7: for a triple with three equal channels \<^verbatim>\<open>rgb_to_hsl\<close> returns exactly
  \<open>(0, 0, l)\<close>, where \<open>l\<close> is the float quotient of the channel by \<^verbatim>\<open>255.0\<close>: the sum
  of the quotient with itself and its half are exact.  The rest of the computation is
  not run: no division by a sum or a range is attempted, so black and white raise
  nothing.  Outside the channels from 0 to 255 the same holds as long as the channel
  converts to a float.
\<close>

theorem rgb_to_hsl_achromatic:
  "rgb_to_hsl (r, r, r) = bnd (int_to_float r) (\<lambda>x. Inr (0, 0, fl (x / 255)))
   \<and> (0 \<le> r \<and> r \<le> 255 \<longrightarrow> rgb_to_hsl (r, r, r) = Inr (0, 0, fl (of_int r / 255)))"
proof (intro conjI impI)
  show "rgb_to_hsl (r, r, r) = bnd (int_to_float r) (\<lambda>x. Inr (0, 0, fl (x / 255)))"
  proof (cases "int_to_float r")
    case (Inl e)
    then show ?thesis by (simp add: rgb_to_hsl_def)
  next
    case (Inr x)
    then show ?thesis by (simp add: rgb_to_hsl_grey)
  qed
next
  assume "0 \<le> r \<and> r \<le> 255"
  then have "\<bar>r\<bar> \<le> 2 ^ 53" by simp
  from rgb_to_hsl_grey [OF int_to_float_small [OF this]]
  show "rgb_to_hsl (r, r, r) = Inr (0, 0, fl (of_int r / 255))" .
qed

theorem rgb_to_hsl_achromatic_witness:
  "(0::int) \<le> 128 \<and> (128::int) \<le> 255
   \<and> rgb_to_hsl (128, 128, 128) = Inr (0, 0, fl (128 / 255))"
proof -
  have "(0::int) \<le> 128 \<and> (128::int) \<le> 255
          \<longrightarrow> rgb_to_hsl (128, 128, 128) = Inr (0, 0, fl (of_int 128 / 255))"
    using rgb_to_hsl_achromatic [of 128] by (rule conjunct2)
  then show ?thesis by simp
qed

lemma fl_128_255: "fl (128 / 255) = 282578800148737 / 562949953421312"
  by (simp add: fl_eval)

lemma fl_half_255: "fl (255 / 2) = 255 / 2"
  using fl_exact [of "255 / 2" "- 1" 255] by simp

lemma py_round_half: "py_round (255 / 2) = 128"
proof -
  have f: "\<lfloor>(255 / 2 :: real)\<rfloor> = 127" by (simp add: floor_eq_iff)
  show ?thesis unfolding py_round_def Let_def f by simp
qed

lemma format_02x_zero: "format_02x 0 = [48, 48]"
  by (simp add: format_02x_def hex_char_def)

lemma hsl_to_hex_grey:
  assumes "0 \<le> l" "l < 1"
  shows "hsl_to_hex (h, PyFloat 0, PyFloat l) = Inr (asc ''#000000'')"
proof -
  from assms have "\<lfloor>l\<rfloor> = 0" by (simp add: floor_eq_iff)
  with assms show ?thesis
    by (simp add: hsl_to_hex_def hsl_to_rgb_def rgb_to_hex_def format_02x_zero asc_def)
qed

text \<open>
  C1 fails on the code: with saturation 0, \<^verbatim>\<open>hsl_to_rgb\<close> returns the lightness itself
  three times, neither scaled to 0..255 nor rounded.  At \<open>l = 1/2\<close> it returns
  \<open>(0.5, 0.5, 0.5)\<close> where the scaled and rounded channel \<^verbatim>\<open>round(0.5 * 255)\<close> is 128,
  and \<^verbatim>\<open>hsl_to_hex\<close> makes \<^verbatim>\<open>#000000\<close> of it.
\<close>

theorem hsl_to_rgb_achromatic_unscaled:
  "hsl_to_rgb (h, PyFloat 0, l) = Inr (l, l, l)
   \<and> hsl_to_rgb (PyFloat 0, PyFloat 0, PyFloat (1 / 2))
       = Inr (PyFloat (1 / 2), PyFloat (1 / 2), PyFloat (1 / 2))
   \<and> round255 (PyFloat (1 / 2)) = Inr (PyInt 128)
   \<and> hsl_to_hex (PyFloat 0, PyFloat 0, PyFloat (1 / 2)) = Inr (asc ''#000000'')"
proof -
  have "round255 (PyFloat (1 / 2)) = Inr (PyInt 128)"
    by (simp add: round255_def float_op_def int_to_float_small fl_half_255 py_round_half)
  moreover have "hsl_to_hex (PyFloat 0, PyFloat 0, PyFloat (1 / 2)) = Inr (asc ''#000000'')"
    by (rule hsl_to_hex_grey) simp_all
  ultimately show ?thesis by (simp add: hsl_to_rgb_def)
qed

text \<open>
  C2 fails on the code for a grey: \<^verbatim>\<open>#808080\<close> has the HSL triple \<open>(0, 0, l)\<close> with
  \<open>l\<close> the float quotient 128 / 255, and \<^verbatim>\<open>hsl_to_hex\<close> of that triple is
  \<^verbatim>\<open>#000000\<close>: each channel is 128 away.
\<close>

theorem hex_hsl_round_trip_grey:
  "hex_to_hsl ucd (asc ''#808080'') = Inr (0, 0, fl (128 / 255))
   \<and> hsl_to_hex (PyFloat 0, PyFloat 0, PyFloat (fl (128 / 255))) = Inr (asc ''#000000'')
   \<and> hex_to_rgb ucd (asc ''#808080'') = Inr (128, 128, 128)
   \<and> hex_to_rgb ucd (asc ''#000000'') = Inr (0, 0, 0)"
proof -
  have rgb: "hex_to_rgb ucd (asc ''#808080'') = Inr (128, 128, 128)"
    by (simp add: hex_to_rgb_eval)
  have z: "hex_to_rgb ucd (asc ''#000000'') = Inr (0, 0, 0)"
    by (simp add: hex_to_rgb_eval)
  have "\<bar>128 :: int\<bar> \<le> 2 ^ 53" by simp
  from rgb_to_hsl_grey [OF int_to_float_small [OF this]]
  have hsl: "hex_to_hsl ucd (asc ''#808080'') = Inr (0, 0, fl (128 / 255))"
    by (simp add: hex_to_hsl_def rgb)
  have again: "hsl_to_hex (PyFloat 0, PyFloat 0, PyFloat (fl (128 / 255))) = Inr (asc ''#000000'')"
    by (rule hsl_to_hex_grey) (simp_all add: fl_128_255)
  from rgb z hsl again show ?thesis by simp
qed

end
